theory Spec2Isabelle
  imports Main
begin

section \<open>LCOV records\<close>

text \<open>
  The interfaces \<^verbatim>\<open>LcovBranchDetail\<close>, \<^verbatim>\<open>LcovFunctionDetail\<close>, \<^verbatim>\<open>LcovLineDetail\<close> and
  \<^verbatim>\<open>LcovFileRecord\<close> of \<^verbatim>\<open>lcovParser.ts\<close>. The three detail interfaces share the field
  names \<open>line\<close> and \<open>hit\<close>, and \<open>file\<close> and \<open>functions\<close> are reserved words here: those
  selectors carry a prefix. A
  \<^verbatim>\<open>number\<close> that holds a count or a line number is an \<open>int\<close>: the arithmetic the
  code does on it (\<open>+\<close>, \<open>- 1\<close>, \<open>> 0\<close>) is exact on the integers a parsed report holds.
  The anonymous object type \<^verbatim>\<open>{ found, hit, details? }\<close> is the record \<open>Counts\<close>; the
  optional \<open>details\<close> is an \<open>option\<close>. A string is a list of characters: the code
  compares strings, tests suffixes and replaces backslashes, which reads the same on
  any alphabet.
\<close>

record LcovBranchDetail =
  bd_line :: int
  bd_block :: int
  bd_branch :: int
  bd_taken :: int

record LcovFunctionDetail =
  fd_name :: string
  fd_line :: int
  fd_hit :: int

record LcovLineDetail =
  ld_line :: int
  ld_hit :: int

record 'd Counts =
  found :: int
  hit :: int
  details :: "'d list option"

record LcovFileRecord =
  rec_file :: string
  rec_lines :: "LcovLineDetail Counts"
  rec_functions :: "LcovFunctionDetail Counts"
  rec_branches :: "LcovBranchDetail Counts"

section \<open>The host's coverage objects\<close>

text \<open>
  The classes of the editor API that the code instantiates, as plain data: each
  constructor keeps its arguments in the order the code passes them. \<^verbatim>\<open>vscode.Range\<close> is
  \<open>RangeV\<close> (the name \<open>Range\<close> is taken by the range of a relation), built
  from four numbers (start line, start character, end line, end character). The
  \<open>executed\<close> argument of a statement is \<^verbatim>\<open>number | boolean\<close>. A statement built without
  a branch list has the empty one. The checks the host's constructors make on their
  arguments are outside the repository and are not modelled.
\<close>

datatype Position = Position int int

datatype RangeV = RangeV int int int int

datatype BranchCoverage = BranchCoverage bool Position string

datatype Executed = Count int | Flag bool

datatype FileCoverageDetail =
    DeclarationCoverage string bool RangeV
  | StatementCoverage Executed RangeV "BranchCoverage list"

definition MAX_SAFE_INTEGER :: int where
  "MAX_SAFE_INTEGER = 9007199254740991"

fun isDeclaration :: "FileCoverageDetail \<Rightarrow> bool" where
  "isDeclaration (DeclarationCoverage n e r) = True"
| "isDeclaration (StatementCoverage e r bs) = False"

fun isStatement :: "FileCoverageDetail \<Rightarrow> bool" where
  "isStatement (DeclarationCoverage n e r) = False"
| "isStatement (StatementCoverage e r bs) = True"

fun rangeStartLine :: "RangeV \<Rightarrow> int" where
  "rangeStartLine (RangeV sl sc el ec) = sl"

text \<open>The 1-based line of the report that an item or a branch mark was built for.\<close>

fun detailLine :: "FileCoverageDetail \<Rightarrow> int" where
  "detailLine (DeclarationCoverage n e r) = rangeStartLine r + 1"
| "detailLine (StatementCoverage e r bs) = rangeStartLine r + 1"

fun attachedBranches :: "FileCoverageDetail \<Rightarrow> BranchCoverage list" where
  "attachedBranches (DeclarationCoverage n e r) = []"
| "attachedBranches (StatementCoverage e r bs) = bs"

fun branchExecuted :: "BranchCoverage \<Rightarrow> bool" where
  "branchExecuted (BranchCoverage e p l) = e"

fun branchLine :: "BranchCoverage \<Rightarrow> int" where
  "branchLine (BranchCoverage e (Position l c) lbl) = l + 1"

section \<open>Numbers in template strings\<close>

text \<open>
  \<^verbatim>\<open>`${n}`\<close> for an integral number: the decimal digits, with a minus sign before a
  negative one.
\<close>

definition digitChar :: "nat \<Rightarrow> char" where
  "digitChar d =
     (if d = 0 then CHR ''0'' else if d = 1 then CHR ''1'' else if d = 2 then CHR ''2''
      else if d = 3 then CHR ''3'' else if d = 4 then CHR ''4'' else if d = 5 then CHR ''5''
      else if d = 6 then CHR ''6'' else if d = 7 then CHR ''7'' else if d = 8 then CHR ''8''
      else CHR ''9'')"

fun digits :: "nat \<Rightarrow> string" where
  "digits n = (if n < 10 then [digitChar n] else digits (n div 10) @ [digitChar (n mod 10)])"

declare digits.simps [simp del]

definition numberToString :: "int \<Rightarrow> string" where
  "numberToString i = (if i < 0 then ''-'' @ digits (nat (- i)) else digits (nat i))"

section \<open>Detail synthesis: \<^verbatim>\<open>LcovParser.loadDetailedCoverageForRecord\<close>\<close>

text \<open>
  One \<^verbatim>\<open>vscode.BranchCoverage\<close> for a branch detail: executed when \<open>taken > 0\<close>, placed at
  the start of the 0-based line, labelled \<^verbatim>\<open>Branch <block>:<branch> taken|not taken\<close>.
\<close>

definition branchCoverageOf :: "LcovBranchDetail \<Rightarrow> BranchCoverage" where
  "branchCoverageOf b =
     BranchCoverage (bd_taken b > 0) (Position (bd_line b - 1) 0)
       (''Branch '' @ numberToString (bd_block b) @ '':'' @ numberToString (bd_branch b) @ '' ''
          @ (if bd_taken b > 0 then ''taken'' else ''not taken''))"

text \<open>
  The first loop: \<^verbatim>\<open>branchesByLine\<close>, a \<^verbatim>\<open>Map<number, BranchCoverage[]>\<close>, gets an empty
  array at a line it has not seen, and the branch is pushed onto the line's array.
\<close>

fun collectBranches ::
  "LcovBranchDetail list \<Rightarrow> (int \<rightharpoonup> BranchCoverage list) \<Rightarrow> (int \<rightharpoonup> BranchCoverage list)" where
  "collectBranches [] branchesByLine = branchesByLine"
| "collectBranches (b # bs) branchesByLine =
     (let m1 = (if branchesByLine (bd_line b) = None then branchesByLine(bd_line b \<mapsto> [])
                else branchesByLine);
          m2 = (case m1 (bd_line b) of
                  None \<Rightarrow> m1
                | Some cs \<Rightarrow> m1(bd_line b \<mapsto> cs @ [branchCoverageOf b]))
      in collectBranches bs m2)"

text \<open>
  The second loop: a declaration item for every function detail with \<open>line > 0\<close>, and
  the line added to \<^verbatim>\<open>processedLines\<close>. The state is the pair of \<^verbatim>\<open>details\<close> and
  \<^verbatim>\<open>processedLines\<close>.
\<close>

fun declareFunctions ::
  "LcovFunctionDetail list \<Rightarrow> FileCoverageDetail list \<Rightarrow> int set
     \<Rightarrow> FileCoverageDetail list \<times> int set" where
  "declareFunctions [] dets processedLines = (dets, processedLines)"
| "declareFunctions (f # fs) dets processedLines =
     (if fd_line f > 0
      then declareFunctions fs
             (dets @ [DeclarationCoverage (fd_name f) (fd_hit f > 0)
                        (RangeV (fd_line f - 1) 0 (fd_line f - 1) MAX_SAFE_INTEGER)])
             (insert (fd_line f) processedLines)
      else declareFunctions fs dets processedLines)"

text \<open>
  The third loop: a statement item for every line detail whose line is not in
  \<^verbatim>\<open>processedLines\<close>, with the line's branches when there are any.
\<close>

fun statementLines ::
  "LcovLineDetail list \<Rightarrow> (int \<rightharpoonup> BranchCoverage list) \<Rightarrow> int set
     \<Rightarrow> FileCoverageDetail list \<Rightarrow> FileCoverageDetail list" where
  "statementLines [] branchesByLine processedLines dets = dets"
| "statementLines (l # ls) branchesByLine processedLines dets =
     (if ld_line l \<in> processedLines then statementLines ls branchesByLine processedLines dets
      else
        let range = RangeV (ld_line l - 1) 0 (ld_line l - 1) MAX_SAFE_INTEGER;
            brs = (case branchesByLine (ld_line l) of None \<Rightarrow> [] | Some cs \<Rightarrow> cs);
            executed = (if ld_hit l > 0 then Count (ld_hit l) else Flag False)
        in if length brs > 0
           then statementLines ls branchesByLine processedLines
                  (dets @ [StatementCoverage executed range brs])
           else statementLines ls branchesByLine processedLines
                  (dets @ [StatementCoverage executed range []]))"

definition loadDetailedCoverageForRecord :: "LcovFileRecord \<Rightarrow> FileCoverageDetail list" where
  "loadDetailedCoverageForRecord rec =
     (case details (rec_lines rec) of
        None \<Rightarrow> []
      | Some lds \<Rightarrow>
          if length lds = 0 then []
          else
            let branchesByLine =
                  (case details (rec_branches rec) of
                     None \<Rightarrow> Map.empty
                   | Some bds \<Rightarrow> if length bds > 0 then collectBranches bds Map.empty
                                else Map.empty);
                (dets, processedLines) =
                  (case details (rec_functions rec) of
                     None \<Rightarrow> ([], {})
                   | Some fds \<Rightarrow> if length fds > 0 then declareFunctions fds [] {}
                                else ([], {}))
            in statementLines lds branchesByLine processedLines dets)"

section \<open>The host: paths, the file system, URIs and the LCOV parser\<close>

text \<open>
  A \<^verbatim>\<open>vscode.Uri\<close> as the three things the code reads from it: \<^verbatim>\<open>scheme\<close>, \<^verbatim>\<open>fsPath\<close>
  and the result of \<^verbatim>\<open>toString()\<close>.
\<close>

record Uri =
  scheme :: string
  fsPath :: string
  uriString :: string

text \<open>
  A thrown value is an \<^verbatim>\<open>Error\<close> object with its message, or any other value with its
  \<^verbatim>\<open>String(...)\<close> text; \<open>thrownText\<close> is
  \<^verbatim>\<open>error instanceof Error ? error.message : String(error)\<close>.
\<close>

datatype Thrown = ErrorObject string | OtherValue string

fun thrownText :: "Thrown \<Rightarrow> string" where
  "thrownText (ErrorObject m) = m"
| "thrownText (OtherValue s) = s"

text \<open>
  What the code calls and the repository does not define is a parameter of the model:
  \<^verbatim>\<open>fs.existsSync\<close>, \<^verbatim>\<open>path.isAbsolute\<close>, \<^verbatim>\<open>path.join\<close> (on the list of its arguments),
  \<^verbatim>\<open>path.basename\<close>, \<^verbatim>\<open>vscode.Uri.file\<close> and the promisified \<^verbatim>\<open>lcov-parse\<close>, which
  resolves with the records (\<open>Inr\<close>) or rejects (\<open>Inl\<close>). The file system does not
  change during one call.
\<close>

record Host =
  existsSync :: "string \<Rightarrow> bool"
  isAbsolute :: "string \<Rightarrow> bool"
  join :: "string list \<Rightarrow> string"
  basename :: "string \<Rightarrow> string"
  uriFile :: "string \<Rightarrow> Uri"
  parseLcov :: "string \<Rightarrow> Thrown + LcovFileRecord list"

datatype Message = ErrorMessage string | WarningMessage string

section \<open>\<^verbatim>\<open>LcovParser.parse\<close>\<close>

text \<open>
  The \<^verbatim>\<open>try\<close> block: a missing file throws \<^verbatim>\<open>LCOV file not found: <path>\<close>, a rejected
  parse throws what the parser rejected with. \<open>Inl\<close> is the thrown value.
\<close>

definition parseTry :: "Host \<Rightarrow> string \<Rightarrow> Thrown + LcovFileRecord list" where
  "parseTry h lcovFilePath =
     (if \<not> existsSync h lcovFilePath
      then Inl (ErrorObject (''LCOV file not found: '' @ lcovFilePath))
      else parseLcov h lcovFilePath)"

text \<open>
  The whole method: the \<^verbatim>\<open>catch\<close> block shows an error message and returns \<^verbatim>\<open>[]\<close>. The
  result is the messages shown and the completion of the call (\<open>Inl\<close> would be an
  exception that leaves \<^verbatim>\<open>parse\<close>).
\<close>

definition parse :: "Host \<Rightarrow> string \<Rightarrow> Message list \<times> (Thrown + LcovFileRecord list)" where
  "parse h lcovFilePath =
     (case parseTry h lcovFilePath of
        Inr records \<Rightarrow> ([], Inr records)
      | Inl err \<Rightarrow> ([ErrorMessage (''Error parsing LCOV file: '' @ thrownText err)], Inr []))"

section \<open>The record store: \<^verbatim>\<open>fileRecordMap\<close> and \<^verbatim>\<open>fileCoverageInstanceMap\<close>\<close>

text \<open>
  A \<^verbatim>\<open>Map\<close> iterates in insertion order, and \<^verbatim>\<open>getFileRecord\<close> depends on that order: the
  map is an association list with one entry per key. \<^verbatim>\<open>set\<close> on a key that is present
  replaces the value where it stands; on a new key it appends.
\<close>

fun mapGet :: "('k \<times> 'v) list \<Rightarrow> 'k \<Rightarrow> 'v option" where
  "mapGet [] k = None"
| "mapGet ((k', v) # m) k = (if k' = k then Some v else mapGet m k)"

fun mapSet :: "('k \<times> 'v) list \<Rightarrow> 'k \<Rightarrow> 'v \<Rightarrow> ('k \<times> 'v) list" where
  "mapSet [] k v = [(k, v)]"
| "mapSet ((k', v') # m) k v = (if k' = k then (k', v) # m else (k', v') # mapSet m k v)"

text \<open>
  A \<^verbatim>\<open>vscode.FileCoverage\<close>: the URI and the three counts it is built from. \<open>fc_id\<close> is
  the identity of the object, which is what the service's \<^verbatim>\<open>WeakMap\<close> is keyed by: two
  objects with the same content are different keys.
\<close>

record CoverageCount =
  covered :: int
  total :: int

record FileCoverage =
  fc_id :: nat
  fc_uri :: Uri
  statementCoverage :: CoverageCount
  branchCoverage :: "CoverageCount option"
  declarationCoverage :: "CoverageCount option"

record LcovParser =
  fileRecordMap :: "(string \<times> LcovFileRecord) list"
  fileCoverageInstanceMap :: "(string \<times> FileCoverage) list"

section \<open>Path resolution in \<^verbatim>\<open>LcovParser.convertToFileCoverage\<close>\<close>

text \<open>
  \<^verbatim>\<open>fileExistsCache\<close> is a \<^verbatim>\<open>Map<string, boolean>\<close>. \<open>cachedExists\<close> is the pattern
  \<^verbatim>\<open>if (!cache.has(p)) cache.set(p, fs.existsSync(p)); ... cache.get(p) || false\<close>.
\<close>

definition cachedExists :: "Host \<Rightarrow> (string \<rightharpoonup> bool) \<Rightarrow> string \<Rightarrow> bool \<times> (string \<rightharpoonup> bool)" where
  "cachedExists h cache p =
     (let cache' = (if cache p = None then cache(p \<mapsto> existsSync h p) else cache)
      in (case cache' p of None \<Rightarrow> False | Some b \<Rightarrow> b, cache'))"

definition commonDirs :: "string list" where
  "commonDirs = [''src'', ''lib'', ''app'', ''components'']"

text \<open>The loop over \<^verbatim>\<open>commonDirs\<close>, which breaks at the first directory that has the file.\<close>

fun probeCommonDirs ::
  "Host \<Rightarrow> string \<Rightarrow> string \<Rightarrow> string list \<Rightarrow> (string \<rightharpoonup> bool)
     \<Rightarrow> string option \<times> (string \<rightharpoonup> bool)" where
  "probeCommonDirs h root fileName [] cache = (None, cache)"
| "probeCommonDirs h root fileName (dir # dirs) cache =
     (let potentialPath = join h [root, dir, fileName];
          cache' = (if cache potentialPath = None
                    then cache(potentialPath \<mapsto> existsSync h potentialPath) else cache)
      in if cache' potentialPath = Some True then (Some potentialPath, cache')
         else probeCommonDirs h root fileName dirs cache')"

text \<open>
  The first part of the loop body, up to \<^verbatim>\<open>if (!fileExists) continue\<close>: the resolved
  path, or \<open>None\<close> when the record is skipped, and the cache as it then is.
\<close>

definition resolvePath ::
  "Host \<Rightarrow> Uri \<Rightarrow> string \<Rightarrow> (string \<rightharpoonup> bool) \<Rightarrow> string option \<times> (string \<rightharpoonup> bool)" where
  "resolvePath h workspaceFolder recFile cache =
     (let (fileExists1, cache1) =
            (if isAbsolute h recFile then cachedExists h cache recFile else (False, cache))
      in if fileExists1 then (Some recFile, cache1)
         else
           let resolvedFilePath = join h [fsPath workspaceFolder, recFile];
               (fileExists2, cache2) = cachedExists h cache1 resolvedFilePath
           in if fileExists2 then (Some resolvedFilePath, cache2)
              else probeCommonDirs h (fsPath workspaceFolder) (basename h recFile)
                     commonDirs cache2)"

section \<open>\<^verbatim>\<open>LcovParser.convertToFileCoverage\<close>\<close>

text \<open>
  The state of the loop over the records: the two maps of the parser, \<^verbatim>\<open>result\<close>, the
  existence cache, and the identity the next \<^verbatim>\<open>FileCoverage\<close> object gets. The
  \<^verbatim>\<open>try\<close>/\<^verbatim>\<open>catch\<close> around the loop body only logs; nothing in the modelled body
  throws.
\<close>

record ConvertState =
  cs_parser :: LcovParser
  cs_result :: "FileCoverage list"
  cs_cache :: "string \<rightharpoonup> bool"
  cs_next :: nat

definition fileCoverageOf :: "nat \<Rightarrow> Uri \<Rightarrow> LcovFileRecord \<Rightarrow> FileCoverage" where
  "fileCoverageOf oid uri rec =
     \<lparr> fc_id = oid, fc_uri = uri,
       statementCoverage = \<lparr> covered = hit (rec_lines rec), total = found (rec_lines rec) \<rparr>,
       branchCoverage =
         (if found (rec_branches rec) > 0
          then Some \<lparr> covered = hit (rec_branches rec), total = found (rec_branches rec) \<rparr>
          else None),
       declarationCoverage =
         (if found (rec_functions rec) > 0
          then Some \<lparr> covered = hit (rec_functions rec), total = found (rec_functions rec) \<rparr>
          else None) \<rparr>"

fun convertLoop :: "Host \<Rightarrow> Uri \<Rightarrow> LcovFileRecord list \<Rightarrow> ConvertState \<Rightarrow> ConvertState" where
  "convertLoop h workspaceFolder [] s = s"
| "convertLoop h workspaceFolder (rec # recs) s =
     (case resolvePath h workspaceFolder (rec_file rec) (cs_cache s) of
        (None, cache') \<Rightarrow> convertLoop h workspaceFolder recs (s\<lparr> cs_cache := cache' \<rparr>)
      | (Some resolvedFilePath, cache') \<Rightarrow>
          let uri = uriFile h resolvedFilePath;
              fileCoverage = fileCoverageOf (cs_next s) uri rec;
              p = cs_parser s
          in convertLoop h workspaceFolder recs
               \<lparr> cs_parser =
                   \<lparr> fileRecordMap = mapSet (fileRecordMap p) (uriString uri) rec,
                     fileCoverageInstanceMap =
                       mapSet (fileCoverageInstanceMap p) (uriString uri) fileCoverage \<rparr>,
                 cs_result = cs_result s @ [fileCoverage],
                 cs_cache = cache',
                 cs_next = cs_next s + 1 \<rparr>)"

text \<open>
  The method clears both maps and starts with an empty cache. \<open>oid\<close> is the first
  unused object identity; the method returns the next one with its result.
\<close>

definition convertToFileCoverage ::
  "Host \<Rightarrow> LcovFileRecord list \<Rightarrow> Uri \<Rightarrow> nat \<Rightarrow> LcovParser
     \<Rightarrow> FileCoverage list \<times> LcovParser \<times> nat" where
  "convertToFileCoverage h records workspaceFolder oid p =
     (let s = convertLoop h workspaceFolder records
                \<lparr> cs_parser = \<lparr> fileRecordMap = [], fileCoverageInstanceMap = [] \<rparr>,
                  cs_result = [], cs_cache = Map.empty, cs_next = oid \<rparr>
      in (cs_result s, cs_parser s, cs_next s))"

section \<open>\<^verbatim>\<open>LcovParser.getFileRecord\<close> and \<^verbatim>\<open>LcovParser.loadDetailedCoverage\<close>\<close>

definition endsWith :: "string \<Rightarrow> string \<Rightarrow> bool" where
  "endsWith s t = (length t \<le> length s \<and> drop (length s - length t) s = t)"

text \<open>\<^verbatim>\<open>replace(/\\/g, '/')\<close>: every backslash becomes a slash.\<close>

definition normalizeSeparators :: "string \<Rightarrow> string" where
  "normalizeSeparators s = map (\<lambda>c. if c = CHR 0x5C then CHR ''/'' else c) s"

text \<open>The strategy that matched, which the code writes to the log.\<close>

datatype Strategy = DirectPath | PathSuffix | NormalizedSuffix | FileNameOnly

text \<open>
  The loop over \<^verbatim>\<open>this.fileRecordMap.entries()\<close>: for each entry in insertion order the
  four tests, and a \<^verbatim>\<open>return\<close> at the first test that holds.
\<close>

fun scanEntries ::
  "Host \<Rightarrow> string \<Rightarrow> (string \<times> LcovFileRecord) list \<Rightarrow> (Strategy \<times> LcovFileRecord) option" where
  "scanEntries h filePath [] = None"
| "scanEntries h filePath ((key, val) # rest) =
     (if rec_file val = filePath then Some (DirectPath, val)
      else if endsWith filePath (rec_file val) then Some (PathSuffix, val)
      else if endsWith (normalizeSeparators filePath) (normalizeSeparators (rec_file val))
           then Some (NormalizedSuffix, val)
      else if basename h filePath = basename h (rec_file val) then Some (FileNameOnly, val)
      else scanEntries h filePath rest)"

definition getFileRecord :: "Host \<Rightarrow> Uri \<Rightarrow> LcovParser \<Rightarrow> LcovFileRecord option \<times> LcovParser" where
  "getFileRecord h uri p =
     (case mapGet (fileRecordMap p) (uriString uri) of
        Some rec \<Rightarrow> (Some rec, p)
      | None \<Rightarrow>
          (case scanEntries h (fsPath uri) (fileRecordMap p) of
             Some (how, val) \<Rightarrow>
               (Some val, p\<lparr> fileRecordMap := mapSet (fileRecordMap p) (uriString uri) val \<rparr>)
           | None \<Rightarrow> (None, p)))"


section \<open>The coverage service\<close>

text \<open>
  \<^verbatim>\<open>calculateCoverageStats\<close>: the loop adds \<^verbatim>\<open>lines.found\<close> and \<^verbatim>\<open>lines.hit\<close> of every
  record it is given. The third result, \<^verbatim>\<open>coveragePercentage\<close>, is the text of a
  floating-point quotient (\<^verbatim>\<open>toFixed(2)\<close>) and is left out of the model.
\<close>

record CoverageStats =
  totalLines :: int
  coveredLines :: int

fun sumLines :: "LcovFileRecord list \<Rightarrow> int \<Rightarrow> int \<Rightarrow> int \<times> int" where
  "sumLines [] totalL coveredL = (totalL, coveredL)"
| "sumLines (rec # recs) totalL coveredL =
     sumLines recs (totalL + found (rec_lines rec)) (coveredL + hit (rec_lines rec))"

definition calculateCoverageStats :: "LcovFileRecord list \<Rightarrow> CoverageStats" where
  "calculateCoverageStats records =
     (let (totalL, coveredL) = sumLines records 0 0
      in \<lparr> totalLines = totalL, coveredLines = coveredL \<rparr>)"

text \<open>
  The state of the service that the modelled methods touch: the parser, the
  \<^verbatim>\<open>WeakMap\<close> from \<^verbatim>\<open>FileCoverage\<close> objects to records (keyed by object identity), the
  totals the status bar shows (\<^verbatim>\<open>updateStatusBar\<close>), the coverages added to the
  current run, and the next unused object identity.
\<close>

record CoverageService =
  parser :: LcovParser
  fileCoverageRecordMap :: "nat \<rightharpoonup> LcovFileRecord"
  statusBar :: "CoverageStats option"
  runCoverage :: "FileCoverage list"
  nextObject :: nat

text \<open>
  The loop of \<^verbatim>\<open>processCoverageFiles\<close> over the converted coverages, for a token that
  is not cancelled: look the record up by URI, remember it for the object, add the
  coverage to the run.
\<close>

fun addCoverages :: "Host \<Rightarrow> FileCoverage list \<Rightarrow> CoverageService \<Rightarrow> CoverageService" where
  "addCoverages h [] s = s"
| "addCoverages h (coverage # rest) s =
     (case getFileRecord h (fc_uri coverage) (parser s) of
        (None, p') \<Rightarrow>
          addCoverages h rest (s\<lparr> parser := p', runCoverage := runCoverage s @ [coverage] \<rparr>)
      | (Some rec, p') \<Rightarrow>
          addCoverages h rest
            (s\<lparr> parser := p',
               fileCoverageRecordMap := (fileCoverageRecordMap s)(fc_id coverage \<mapsto> rec),
               runCoverage := runCoverage s @ [coverage] \<rparr>))"

definition processCoverageFiles ::
  "Host \<Rightarrow> LcovFileRecord list \<Rightarrow> Uri \<Rightarrow> CoverageService \<Rightarrow> CoverageService" where
  "processCoverageFiles h records workspaceUri s =
     (let (fileCoverages, p', oid') =
            convertToFileCoverage h records workspaceUri (nextObject s) (parser s)
      in addCoverages h fileCoverages (s\<lparr> parser := p', nextObject := oid' \<rparr>))"

text \<open>
  \<^verbatim>\<open>loadCoverage\<close> for a token that is not cancelled; progress reports and the closing
  delay are left out. \<open>workspaceFolder\<close> is \<^verbatim>\<open>vscode.workspace.workspaceFolders?.[0]\<close>.
  The statistics are computed from the parsed records before any path is resolved;
  \<^verbatim>\<open>createTestRun\<close> starts a run with no coverage. An exception out of \<^verbatim>\<open>parse\<close> would be
  caught by the method's own \<^verbatim>\<open>catch\<close> block.
\<close>

definition loadCoverage ::
  "Host \<Rightarrow> Uri option \<Rightarrow> string \<Rightarrow> CoverageService \<Rightarrow> Message list \<times> CoverageService" where
  "loadCoverage h workspaceFolder lcovFilePath s =
     (case workspaceFolder of
        None \<Rightarrow> ([ErrorMessage ''No workspace folder found.''], s)
      | Some folder \<Rightarrow>
          (case parse h lcovFilePath of
             (shown, Inl err) \<Rightarrow>
               (shown @ [ErrorMessage (''Failed to load coverage: '' @ thrownText err)], s)
           | (shown, Inr records) \<Rightarrow>
               if length records = 0
               then (shown @ [WarningMessage ''No coverage data found in the LCOV file.''], s)
               else
                 let stats = calculateCoverageStats records;
                     s1 = s\<lparr> statusBar := Some stats, runCoverage := [] \<rparr>
                 in (shown, processCoverageFiles h records folder s1)))"


section \<open>What the specification says, in its own words\<close>

text \<open>
  The item the specification has for a function detail and for a line detail, given
  the branch marks grouped by line.
\<close>

definition declarationOf :: "LcovFunctionDetail \<Rightarrow> FileCoverageDetail" where
  "declarationOf f =
     DeclarationCoverage (fd_name f) (fd_hit f > 0)
       (RangeV (fd_line f - 1) 0 (fd_line f - 1) MAX_SAFE_INTEGER)"

definition statementOf ::
  "(int \<rightharpoonup> BranchCoverage list) \<Rightarrow> LcovLineDetail \<Rightarrow> FileCoverageDetail" where
  "statementOf branchesByLine l =
     StatementCoverage (if ld_hit l > 0 then Count (ld_hit l) else Flag False)
       (RangeV (ld_line l - 1) 0 (ld_line l - 1) MAX_SAFE_INTEGER)
       (case branchesByLine (ld_line l) of None \<Rightarrow> [] | Some cs \<Rightarrow> cs)"

definition detailsOrEmpty :: "'d Counts \<Rightarrow> 'd list" where
  "detailsOrEmpty c = (case details c of None \<Rightarrow> [] | Some ds \<Rightarrow> ds)"

text \<open>
  The claimed set (the lines of the function details with \<open>line > 0\<close>) and the branch
  marks of a record grouped by line.
\<close>

definition claimedLines :: "LcovFunctionDetail list \<Rightarrow> int set" where
  "claimedLines fs = set (map fd_line (filter (\<lambda>f. fd_line f > 0) fs))"

definition groupedBranches :: "LcovBranchDetail Counts \<Rightarrow> (int \<rightharpoonup> BranchCoverage list)" where
  "groupedBranches c = collectBranches (detailsOrEmpty c) Map.empty"

text \<open>
  The Path Resolver of the specification: the four strategies in their order, on the
  file system itself (no cache).
\<close>

definition resolveSpec :: "Host \<Rightarrow> Uri \<Rightarrow> string \<Rightarrow> string option" where
  "resolveSpec h workspaceRoot reportedPath =
     (if isAbsolute h reportedPath \<and> existsSync h reportedPath then Some reportedPath
      else if existsSync h (join h [fsPath workspaceRoot, reportedPath])
      then Some (join h [fsPath workspaceRoot, reportedPath])
      else
        (case List.find
                (\<lambda>dir. existsSync h (join h [fsPath workspaceRoot, dir, basename h reportedPath]))
                [''src'', ''lib'', ''app'', ''components''] of
           Some dir \<Rightarrow> Some (join h [fsPath workspaceRoot, dir, basename h reportedPath])
         | None \<Rightarrow> None))"

text \<open>
  The paths the ladder looks at: each candidate in turn, up to and including the
  first that exists, and none after it.
\<close>

fun probedUntilHit :: "(string \<Rightarrow> bool) \<Rightarrow> string list \<Rightarrow> string list" where
  "probedUntilHit ex [] = []"
| "probedUntilHit ex (p # ps) = (if ex p then [p] else p # probedUntilHit ex ps)"

definition probesSpec :: "Host \<Rightarrow> Uri \<Rightarrow> string \<Rightarrow> string list" where
  "probesSpec h workspaceRoot reportedPath =
     (if isAbsolute h reportedPath \<and> existsSync h reportedPath then [reportedPath]
      else (if isAbsolute h reportedPath then [reportedPath] else [])
         @ (if existsSync h (join h [fsPath workspaceRoot, reportedPath])
            then [join h [fsPath workspaceRoot, reportedPath]]
            else join h [fsPath workspaceRoot, reportedPath]
               # probedUntilHit (existsSync h)
                   (map (\<lambda>dir. join h [fsPath workspaceRoot, dir, basename h reportedPath])
                      [''src'', ''lib'', ''app'', ''components''])))"

text \<open>A cache that holds only what the file system says.\<close>

definition cacheAgrees :: "Host \<Rightarrow> (string \<rightharpoonup> bool) \<Rightarrow> bool" where
  "cacheAgrees h cache = (\<forall>p b. cache p = Some b \<longrightarrow> b = existsSync h p)"

text \<open>
  The identity a record resolves to (the text of the URI of its resolved path), and
  the records of a report that resolve.
\<close>

definition identityOf :: "Host \<Rightarrow> Uri \<Rightarrow> LcovFileRecord \<Rightarrow> string option" where
  "identityOf h workspaceRoot rec =
     map_option (\<lambda>p. uriString (uriFile h p)) (resolveSpec h workspaceRoot (rec_file rec))"

definition resolvedRecords :: "Host \<Rightarrow> Uri \<Rightarrow> LcovFileRecord list \<Rightarrow> LcovFileRecord list" where
  "resolvedRecords h workspaceRoot records =
     filter (\<lambda>rec. resolveSpec h workspaceRoot (rec_file rec) \<noteq> None) records"

text \<open>The sums of \<open>lines.found\<close> and \<open>lines.hit\<close> over a list of records.\<close>

definition sumFound :: "LcovFileRecord list \<Rightarrow> int" where
  "sumFound records = sum_list (map (\<lambda>rec. found (rec_lines rec)) records)"

definition sumHit :: "LcovFileRecord list \<Rightarrow> int" where
  "sumHit records = sum_list (map (\<lambda>rec. hit (rec_lines rec)) records)"

text \<open>A sequence of lookups by identity, each on the store the one before left.\<close>

fun lookups :: "Host \<Rightarrow> Uri list \<Rightarrow> LcovParser \<Rightarrow> LcovParser" where
  "lookups h [] p = p"
| "lookups h (uri # uris) p = lookups h uris (snd (getFileRecord h uri p))"

text \<open>
  The fallback search with a priority order over the whole store: a suffix match on
  any record, else a separator-normalized suffix match on any record, else a
  filename-only match on any record.
\<close>

definition firstRecordWhere ::
  "(LcovFileRecord \<Rightarrow> bool) \<Rightarrow> (string \<times> LcovFileRecord) list \<Rightarrow> LcovFileRecord option" where
  "firstRecordWhere P entries = List.find P (map snd entries)"

definition fallbackByPriority ::
  "Host \<Rightarrow> string \<Rightarrow> (string \<times> LcovFileRecord) list \<Rightarrow> LcovFileRecord option" where
  "fallbackByPriority h filePath entries =
     (case firstRecordWhere (\<lambda>r. endsWith filePath (rec_file r)) entries of
        Some r \<Rightarrow> Some r
      | None \<Rightarrow>
          (case firstRecordWhere
                  (\<lambda>r. endsWith (normalizeSeparators filePath) (normalizeSeparators (rec_file r)))
                  entries of
             Some r \<Rightarrow> Some r
           | None \<Rightarrow>
               firstRecordWhere (\<lambda>r. basename h filePath = basename h (rec_file r)) entries))"

section \<open>A POSIX host and example reports\<close>

text \<open>
  A host for concrete runs. \<open>isAbsolutePosix\<close> and \<open>basenamePosix\<close> are Node's POSIX
  functions; \<open>joinPlain\<close> puts a slash between the segments, which is what
  \<^verbatim>\<open>path.join\<close> does on segments that hold no \<^verbatim>\<open>.\<close> or \<^verbatim>\<open>..\<close> component, no doubled
  slash and no slash at an end that meets another segment; \<open>fileUri\<close> is
  \<^verbatim>\<open>vscode.Uri.file\<close> on an absolute POSIX path whose characters need no escaping.
\<close>

definition isAbsolutePosix :: "string \<Rightarrow> bool" where
  "isAbsolutePosix p = (case p of [] \<Rightarrow> False | c # cs \<Rightarrow> c = CHR ''/'')"

definition basenamePosix :: "string \<Rightarrow> string" where
  "basenamePosix p =
     rev (takeWhile (\<lambda>c. c \<noteq> CHR ''/'') (dropWhile (\<lambda>c. c = CHR ''/'') (rev p)))"

fun joinPlain :: "string list \<Rightarrow> string" where
  "joinPlain [] = ''.''"
| "joinPlain [s] = s"
| "joinPlain (s # t # ss) = s @ ''/'' @ joinPlain (t # ss)"

definition fileUri :: "string \<Rightarrow> Uri" where
  "fileUri p = \<lparr> scheme = ''file'', fsPath = p, uriString = ''file://'' @ p \<rparr>"

definition posixHost :: "string list \<Rightarrow> (string \<Rightarrow> Thrown + LcovFileRecord list) \<Rightarrow> Host" where
  "posixHost files lcov =
     \<lparr> existsSync = (\<lambda>p. p \<in> set files), isAbsolute = isAbsolutePosix, join = joinPlain,
       basename = basenamePosix, uriFile = fileUri, parseLcov = lcov \<rparr>"

definition summaryRecord :: "string \<Rightarrow> int \<Rightarrow> int \<Rightarrow> LcovFileRecord" where
  "summaryRecord path f h =
     \<lparr> rec_file = path,
       rec_lines = \<lparr> found = f, hit = h, details = None \<rparr>,
       rec_functions = \<lparr> found = 0, hit = 0, details = None \<rparr>,
       rec_branches = \<lparr> found = 0, hit = 0, details = None \<rparr> \<rparr>"

definition emptyParser :: LcovParser where
  "emptyParser = \<lparr> fileRecordMap = [], fileCoverageInstanceMap = [] \<rparr>"

definition freshService :: CoverageService where
  "freshService =
     \<lparr> parser = emptyParser, fileCoverageRecordMap = Map.empty, statusBar = None,
       runCoverage = [], nextObject = 0 \<rparr>"

text \<open>The workspace \<^verbatim>\<open>/ws\<close> with the single source file \<^verbatim>\<open>/ws/src/util.ts\<close>.\<close>

definition wsRoot :: Uri where
  "wsRoot = fileUri ''/ws''"

definition utilHost :: Host where
  "utilHost = posixHost [''/ws/src/util.ts''] (\<lambda>p. Inr [])"

definition utilRecord :: LcovFileRecord where
  "utilRecord = summaryRecord ''src/util.ts'' 10 7"


text \<open>
  A report of two records, of which \<^verbatim>\<open>gen/missing.ts\<close> is nowhere in the workspace, and a
  host whose parser rejects the report.
\<close>

definition reportRecords :: "LcovFileRecord list" where
  "reportRecords = [summaryRecord ''src/util.ts'' 10 7, summaryRecord ''gen/missing.ts'' 5 5]"

definition reportHost :: Host where
  "reportHost =
     posixHost [''/ws/coverage/lcov.info'', ''/ws/src/util.ts'']
       (\<lambda>p. if p = ''/ws/coverage/lcov.info'' then Inr reportRecords
            else Inl (OtherValue ''Failed to parse string''))"

definition brokenHost :: Host where
  "brokenHost =
     posixHost [''/ws/coverage/lcov.info''] (\<lambda>p. Inl (OtherValue ''Failed to parse string''))"

text \<open>A record with \<open>lines.found = 0\<close> and \<open>lines.hit = 3\<close>.\<close>

definition emptyRecord :: LcovFileRecord where
  "emptyRecord = summaryRecord ''src/empty.ts'' 0 3"

text \<open>
  Two records that resolve to the same file: the first by joining onto the workspace
  root, the second as an absolute path.
\<close>

definition duplicateRecords :: "LcovFileRecord list" where
  "duplicateRecords = [summaryRecord ''src/util.ts'' 10 7, summaryRecord ''/ws/src/util.ts'' 20 1]"

text \<open>
  A workspace with \<^verbatim>\<open>lib/util.ts\<close> and \<^verbatim>\<open>src/util.ts\<close>, the store after loading a report
  that lists them in this order, and the URI of a third file,
  \<^verbatim>\<open>/ws/packages/app/src/util.ts\<close>, which is not in the store.
\<close>

definition libRecord :: LcovFileRecord where
  "libRecord = summaryRecord ''lib/util.ts'' 4 4"

definition srcRecord :: LcovFileRecord where
  "srcRecord = summaryRecord ''src/util.ts'' 10 7"

definition twoDirHost :: Host where
  "twoDirHost = posixHost [''/ws/lib/util.ts'', ''/ws/src/util.ts''] (\<lambda>p. Inr [])"

definition twoDirStore :: LcovParser where
  "twoDirStore =
     fst (snd (convertToFileCoverage twoDirHost [libRecord, srcRecord] wsRoot 0 emptyParser))"

definition probeUri :: Uri where
  "probeUri = fileUri ''/ws/packages/app/src/util.ts''"

text \<open>The record of the specification's round-trip example.\<close>

definition roundTripRecord :: LcovFileRecord where
  "roundTripRecord =
     \<lparr> rec_file = ''src/a.ts'',
       rec_lines = \<lparr> found = 1, hit = 1, details = Some [\<lparr> ld_line = 5, ld_hit = 3 \<rparr>] \<rparr>,
       rec_functions = \<lparr> found = 0, hit = 0, details = None \<rparr>,
       rec_branches = \<lparr> found = 2, hit = 1, details = Some
          [\<lparr> bd_line = 5, bd_block = 0, bd_branch = 0, bd_taken = 0 \<rparr>,
           \<lparr> bd_line = 5, bd_block = 0, bd_branch = 1, bd_taken = 2 \<rparr>] \<rparr> \<rparr>"

text \<open>
  A record with a function declared on line 3, a function detail with line 0, line
  details for lines 3, 4 and 6, and branch details on lines 3 and 4.
\<close>

definition declaredFunction :: LcovFunctionDetail where
  "declaredFunction = \<lparr> fd_name = ''f'', fd_line = 3, fd_hit = 1 \<rparr>"

definition claimedBranch :: LcovBranchDetail where
  "claimedBranch = \<lparr> bd_line = 3, bd_block = 0, bd_branch = 0, bd_taken = 1 \<rparr>"

definition mixedRecord :: LcovFileRecord where
  "mixedRecord =
     \<lparr> rec_file = ''src/b.ts'',
       rec_lines = \<lparr> found = 3, hit = 2, details = Some
          [\<lparr> ld_line = 3, ld_hit = 1 \<rparr>, \<lparr> ld_line = 4, ld_hit = 2 \<rparr>,
           \<lparr> ld_line = 6, ld_hit = 0 \<rparr>] \<rparr>,
       rec_functions = \<lparr> found = 2, hit = 1, details = Some
          [declaredFunction, \<lparr> fd_name = ''g'', fd_line = 0, fd_hit = 0 \<rparr>] \<rparr>,
       rec_branches = \<lparr> found = 3, hit = 2, details = Some
          [claimedBranch,
           \<lparr> bd_line = 4, bd_block = 0, bd_branch = 0, bd_taken = 0 \<rparr>,
           \<lparr> bd_line = 4, bd_block = 0, bd_branch = 1, bd_taken = 5 \<rparr>] \<rparr> \<rparr>"

definition mixedDetails :: "FileCoverageDetail list" where
  "mixedDetails =
     [DeclarationCoverage ''f'' True (RangeV 2 0 2 9007199254740991),
      StatementCoverage (Count 2) (RangeV 3 0 3 9007199254740991)
        [BranchCoverage False (Position 3 0) ''Branch 0:0 not taken'',
         BranchCoverage True (Position 3 0) ''Branch 0:1 taken''],
      StatementCoverage (Flag False) (RangeV 5 0 5 9007199254740991) []]"







section \<open>Detail synthesis: what the three loops compute\<close>

lemma declareFunctions_fst:
  "fst (declareFunctions fs ds ps) = ds @ map declarationOf (filter (\<lambda>f. fd_line f > 0) fs)"
  by (induction fs arbitrary: ds ps) (auto simp: declarationOf_def)

lemma declareFunctions_snd:
  "snd (declareFunctions fs ds ps) = ps \<union> claimedLines fs"
  by (induction fs arbitrary: ds ps) (auto simp: claimedLines_def)

lemma statementLines_eq:
  "statementLines ls bbl ps ds = ds @ map (statementOf bbl) (filter (\<lambda>l. ld_line l \<notin> ps) ls)"
  by (induction ls arbitrary: ds) (auto simp: statementOf_def Let_def)

text \<open>
  The output of the synthesizer: nothing without line details; otherwise the
  declarations of the functions with \<open>line > 0\<close>, then the statements of the lines that
  are not claimed.
\<close>

lemma synthesis_eq:
  "loadDetailedCoverageForRecord rec =
     (if detailsOrEmpty (rec_lines rec) = [] then []
      else map declarationOf (filter (\<lambda>f. fd_line f > 0) (detailsOrEmpty (rec_functions rec)))
         @ map (statementOf (groupedBranches (rec_branches rec)))
             (filter (\<lambda>l. ld_line l \<notin> claimedLines (detailsOrEmpty (rec_functions rec)))
                (detailsOrEmpty (rec_lines rec))))"
proof -
  have e: "claimedLines [] = {}" by (simp add: claimedLines_def)
  show ?thesis
    unfolding loadDetailedCoverageForRecord_def detailsOrEmpty_def groupedBranches_def
    by (simp add: statementLines_eq declareFunctions_fst declareFunctions_snd e
        case_prod_unfold Let_def split: option.splits)
qed

lemma collectBranches_line:
  "(\<And>l cs c. m l = Some cs \<Longrightarrow> c \<in> set cs \<Longrightarrow> branchLine c = l) \<Longrightarrow>
   collectBranches bs m l = Some cs \<Longrightarrow> c \<in> set cs \<Longrightarrow> branchLine c = l"
proof (induction bs arbitrary: m)
  case Nil
  then show ?case by simp
next
  case (Cons b bs)
  let ?m1 = "if m (bd_line b) = None then m(bd_line b \<mapsto> []) else m"
  let ?m2 = "case ?m1 (bd_line b) of None \<Rightarrow> ?m1
             | Some cs \<Rightarrow> ?m1(bd_line b \<mapsto> cs @ [branchCoverageOf b])"
  have step: "collectBranches (b # bs) m = collectBranches bs ?m2"
    by (simp add: Let_def)
  have inv: "branchLine c' = l'" if "?m2 l' = Some cs'" "c' \<in> set cs'" for l' cs' c'
    using that Cons.prems(1)
    by (auto simp: branchCoverageOf_def split: if_splits option.splits)
  show ?case
    using Cons.IH[of ?m2] inv Cons.prems(2,3) unfolding step by blast
qed

lemma groupedBranches_line:
  "groupedBranches c l = Some cs \<Longrightarrow> m \<in> set cs \<Longrightarrow> branchLine m = l"
  unfolding groupedBranches_def by (rule collectBranches_line[where m = Map.empty]) auto

lemma declarationOf_simps:
  "isDeclaration (declarationOf f)" "\<not> isStatement (declarationOf f)"
  "detailLine (declarationOf f) = fd_line f" "attachedBranches (declarationOf f) = []"
  by (simp_all add: declarationOf_def)

lemma statementOf_simps:
  "isStatement (statementOf b l)" "\<not> isDeclaration (statementOf b l)"
  "detailLine (statementOf b l) = ld_line l"
  "attachedBranches (statementOf b l) = (case b (ld_line l) of None \<Rightarrow> [] | Some cs \<Rightarrow> cs)"
  by (simp_all add: statementOf_def)

lemma declarations_before_statements:
  assumes "\<forall>d \<in> set ds. \<not> isStatement d" "\<forall>s \<in> set ss. \<not> isDeclaration s"
    and "i < length (ds @ ss)" "j < length (ds @ ss)"
    and "isDeclaration ((ds @ ss) ! i)" "isStatement ((ds @ ss) ! j)"
  shows "i < j"
proof -
  have "i < length ds" using assms(2,3,5) by (auto simp: nth_append split: if_splits)
  moreover have "\<not> j < length ds" using assms(1,6) by (auto simp: nth_append split: if_splits)
  ultimately show ?thesis by simp
qed

lemmas synthesis_run =
  loadDetailedCoverageForRecord_def branchCoverageOf_def numberToString_def digits.simps
  digitChar_def MAX_SAFE_INTEGER_def

lemma mixedRecord_details: "loadDetailedCoverageForRecord mixedRecord = mixedDetails"
  by (simp add: synthesis_run mixedRecord_def mixedDetails_def declaredFunction_def
      claimedBranch_def)

text \<open>
  C5. In the output of the synthesizer every declaration item stands before every
  statement item; no declaration item and statement item are for the same line; and a
  line of a function detail with \<open>line > 0\<close> has no statement item.
\<close>

theorem detail_order:
  "(\<forall>i j. i < length (loadDetailedCoverageForRecord rec)
        \<and> j < length (loadDetailedCoverageForRecord rec)
        \<and> isDeclaration (loadDetailedCoverageForRecord rec ! i)
        \<and> isStatement (loadDetailedCoverageForRecord rec ! j) \<longrightarrow> i < j)
   \<and> (\<forall>d \<in> set (loadDetailedCoverageForRecord rec).
        \<forall>s \<in> set (loadDetailedCoverageForRecord rec).
          isDeclaration d \<and> isStatement s \<longrightarrow> detailLine d \<noteq> detailLine s)
   \<and> (\<forall>f \<in> set (detailsOrEmpty (rec_functions rec)). fd_line f > 0 \<longrightarrow>
        (\<forall>s \<in> set (loadDetailedCoverageForRecord rec).
           isStatement s \<longrightarrow> detailLine s \<noteq> fd_line f))"
proof (cases "detailsOrEmpty (rec_lines rec) = []")
  case True
  then show ?thesis by (simp add: synthesis_eq)
next
  case False
  let ?claimed = "claimedLines (detailsOrEmpty (rec_functions rec))"
  define ds where
    "ds = map declarationOf (filter (\<lambda>f. fd_line f > 0) (detailsOrEmpty (rec_functions rec)))"
  define ss where
    "ss = map (statementOf (groupedBranches (rec_branches rec)))
            (filter (\<lambda>l. ld_line l \<notin> ?claimed) (detailsOrEmpty (rec_lines rec)))"
  have out: "loadDetailedCoverageForRecord rec = ds @ ss"
    using False by (simp add: synthesis_eq ds_def ss_def)
  have dsD: "\<forall>d \<in> set ds. \<not> isStatement d \<and> isDeclaration d \<and> detailLine d \<in> ?claimed"
    by (auto simp: ds_def declarationOf_simps claimedLines_def)
  have ssS: "\<forall>s \<in> set ss. \<not> isDeclaration s \<and> isStatement s \<and> detailLine s \<notin> ?claimed"
    by (auto simp: ss_def statementOf_simps)
  have a: "\<forall>i j. i < length (ds @ ss) \<and> j < length (ds @ ss) \<and> isDeclaration ((ds @ ss) ! i)
            \<and> isStatement ((ds @ ss) ! j) \<longrightarrow> i < j"
    using declarations_before_statements[of ds ss] dsD ssS by blast
  have b: "\<forall>d \<in> set (ds @ ss). \<forall>s \<in> set (ds @ ss).
             isDeclaration d \<and> isStatement s \<longrightarrow> detailLine d \<noteq> detailLine s"
    using dsD ssS by auto
  have c: "\<forall>f \<in> set (detailsOrEmpty (rec_functions rec)). fd_line f > 0 \<longrightarrow>
             (\<forall>s \<in> set (ds @ ss). isStatement s \<longrightarrow> detailLine s \<noteq> fd_line f)"
    using dsD ssS by (auto simp: claimedLines_def)
  show ?thesis unfolding out using a b c by blast
qed

theorem detail_order_witness:
  "loadDetailedCoverageForRecord mixedRecord = mixedDetails
   \<and> (0::nat) < length mixedDetails \<and> (1::nat) < length mixedDetails
   \<and> isDeclaration (mixedDetails ! 0) \<and> isStatement (mixedDetails ! 1) \<and> (0::nat) < 1
   \<and> mixedDetails ! 0 \<in> set mixedDetails \<and> mixedDetails ! 1 \<in> set mixedDetails
   \<and> detailLine (mixedDetails ! 0) \<noteq> detailLine (mixedDetails ! 1)
   \<and> declaredFunction \<in> set (detailsOrEmpty (rec_functions mixedRecord))
   \<and> fd_line declaredFunction > 0
   \<and> detailLine (mixedDetails ! 1) \<noteq> fd_line declaredFunction"
proof -
  have len: "(0::nat) < length mixedDetails" "(1::nat) < length mixedDetails"
    and kinds: "isDeclaration (mixedDetails ! 0)" "isStatement (mixedDetails ! 1)"
    and mem: "mixedDetails ! 0 \<in> set mixedDetails" "mixedDetails ! 1 \<in> set mixedDetails"
    by (simp_all add: mixedDetails_def)
  have f: "declaredFunction \<in> set (detailsOrEmpty (rec_functions mixedRecord))"
    "fd_line declaredFunction > 0"
    by (simp_all add: mixedRecord_def detailsOrEmpty_def declaredFunction_def)
  note inst = detail_order[of mixedRecord, unfolded mixedRecord_details]
  from inst len kinds have "(0::nat) < 1" by blast
  moreover from inst mem kinds
  have "detailLine (mixedDetails ! 0) \<noteq> detailLine (mixedDetails ! 1)" by blast
  moreover from inst f mem(2) kinds(2)
  have "detailLine (mixedDetails ! 1) \<noteq> fd_line declaredFunction" by blast
  ultimately show ?thesis
    using len kinds mem f mixedRecord_details by simp
qed

text \<open>
  C6. The round-trip example: one line detail (line 5, hit 3), two branch details on
  line 5 (taken 0 and taken 2) and no function details give exactly one statement
  item, for line 5, with the count 3 and two branch marks, the first not executed and
  the second executed.
\<close>

theorem round_trip:
  "loadDetailedCoverageForRecord roundTripRecord =
     [StatementCoverage (Count 3) (RangeV 4 0 4 9007199254740991)
        [BranchCoverage False (Position 4 0) ''Branch 0:0 not taken'',
         BranchCoverage True (Position 4 0) ''Branch 0:1 taken'']]
   \<and> map isStatement (loadDetailedCoverageForRecord roundTripRecord) = [True]
   \<and> map detailLine (loadDetailedCoverageForRecord roundTripRecord) = [5]
   \<and> map (map branchExecuted \<circ> attachedBranches) (loadDetailedCoverageForRecord roundTripRecord)
       = [[False, True]]"
  by (simp add: synthesis_run roundTripRecord_def)

text \<open>
  C10. A branch detail on the line of a function detail with \<open>line > 0\<close> leaves no
  branch mark in the output: no mark attached to any item is the mark of that branch
  detail, or any mark for its line.
\<close>

theorem claimed_branches_dropped:
  assumes "f \<in> set (detailsOrEmpty (rec_functions rec))" "fd_line f > 0"
    and "b \<in> set (detailsOrEmpty (rec_branches rec))" "bd_line b = fd_line f"
    and "d \<in> set (loadDetailedCoverageForRecord rec)" "m \<in> set (attachedBranches d)"
  shows "m \<noteq> branchCoverageOf b \<and> branchLine m \<noteq> bd_line b"
proof -
  let ?g = "groupedBranches (rec_branches rec)"
  let ?claimed = "claimedLines (detailsOrEmpty (rec_functions rec))"
  let ?decls = "map declarationOf (filter (\<lambda>f. fd_line f > 0) (detailsOrEmpty (rec_functions rec)))"
  have cl: "bd_line b \<in> ?claimed"
    using assms(1,2,4) by (force simp: claimedLines_def)
  have "d \<in> set ?decls
      \<or> d \<in> set (map (statementOf ?g)
                    (filter (\<lambda>l. ld_line l \<notin> ?claimed) (detailsOrEmpty (rec_lines rec))))"
    using assms(5) by (auto simp: synthesis_eq split: if_splits)
  moreover have "d \<notin> set ?decls"
    using assms(6) by (auto simp: declarationOf_simps)
  ultimately obtain l where l: "ld_line l \<notin> ?claimed" "d = statementOf ?g l"
    by auto
  from assms(6) l(2) have "m \<in> set (case ?g (ld_line l) of None \<Rightarrow> [] | Some cs \<Rightarrow> cs)"
    by (simp add: statementOf_simps)
  then obtain cs where cs: "?g (ld_line l) = Some cs" "m \<in> set cs"
    by (cases "?g (ld_line l)") auto
  have "branchLine m = ld_line l"
    using groupedBranches_line[OF cs] .
  with l(1) cl have "branchLine m \<noteq> bd_line b" by auto
  moreover have "branchLine (branchCoverageOf b) = bd_line b"
    by (simp add: branchCoverageOf_def)
  ultimately show ?thesis by auto
qed

theorem claimed_branches_dropped_witness:
  "declaredFunction \<in> set (detailsOrEmpty (rec_functions mixedRecord))
   \<and> fd_line declaredFunction > 0
   \<and> claimedBranch \<in> set (detailsOrEmpty (rec_branches mixedRecord))
   \<and> bd_line claimedBranch = fd_line declaredFunction
   \<and> mixedDetails ! 1 \<in> set (loadDetailedCoverageForRecord mixedRecord)
   \<and> BranchCoverage True (Position 3 0) ''Branch 0:1 taken'' \<in> set (attachedBranches (mixedDetails ! 1))
   \<and> BranchCoverage True (Position 3 0) ''Branch 0:1 taken'' \<noteq> branchCoverageOf claimedBranch
   \<and> branchLine (BranchCoverage True (Position 3 0) ''Branch 0:1 taken'') \<noteq> bd_line claimedBranch"
proof -
  have f: "declaredFunction \<in> set (detailsOrEmpty (rec_functions mixedRecord))"
    "fd_line declaredFunction > 0"
    by (simp_all add: mixedRecord_def detailsOrEmpty_def declaredFunction_def)
  have b: "claimedBranch \<in> set (detailsOrEmpty (rec_branches mixedRecord))"
    "bd_line claimedBranch = fd_line declaredFunction"
    by (simp_all add: mixedRecord_def detailsOrEmpty_def declaredFunction_def claimedBranch_def)
  have d: "mixedDetails ! 1 \<in> set (loadDetailedCoverageForRecord mixedRecord)"
    by (simp add: mixedRecord_details) (simp add: mixedDetails_def)
  have m: "BranchCoverage True (Position 3 0) ''Branch 0:1 taken''
             \<in> set (attachedBranches (mixedDetails ! 1))"
    by (simp add: mixedDetails_def)
  from claimed_branches_dropped[OF f b d m] f b d m show ?thesis by simp
qed

section \<open>Path resolution agrees with the specification's resolver\<close>

lemma cacheAgrees_empty: "cacheAgrees h Map.empty"
  by (simp add: cacheAgrees_def)

lemma cachedExists_agrees:
  assumes "cacheAgrees h cache"
  shows "fst (cachedExists h cache p) = existsSync h p"
    and "cacheAgrees h (snd (cachedExists h cache p))"
  using assms by (auto simp: cachedExists_def cacheAgrees_def Let_def split: option.splits)

lemma probeCommonDirs_agrees:
  assumes "cacheAgrees h cache"
  shows "fst (probeCommonDirs h root fileName dirs cache)
           = map_option (\<lambda>dir. join h [root, dir, fileName])
               (List.find (\<lambda>dir. existsSync h (join h [root, dir, fileName])) dirs)
         \<and> cacheAgrees h (snd (probeCommonDirs h root fileName dirs cache))"
  using assms
proof (induction dirs arbitrary: cache)
  case Nil
  then show ?case by simp
next
  case (Cons dir dirs)
  let ?p = "join h [root, dir, fileName]"
  let ?c = "if cache ?p = None then cache(?p \<mapsto> existsSync h ?p) else cache"
  have c: "cacheAgrees h ?c" using Cons.prems by (auto simp: cacheAgrees_def)
  have v: "?c ?p = Some (existsSync h ?p)"
    using Cons.prems by (auto simp: cacheAgrees_def)
  show ?case
    using Cons.IH[OF c] c v by (simp add: Let_def)
qed

lemma resolvePath_agrees:
  assumes "cacheAgrees h cache"
  shows "fst (resolvePath h workspaceFolder recFile cache) = resolveSpec h workspaceFolder recFile"
    and "cacheAgrees h (snd (resolvePath h workspaceFolder recFile cache))"
proof -
  let ?c1 = "if isAbsolute h recFile then snd (cachedExists h cache recFile) else cache"
  have c1: "cacheAgrees h ?c1" using assms cachedExists_agrees(2) by simp
  let ?p2 = "join h [fsPath workspaceFolder, recFile]"
  have c2: "cacheAgrees h (snd (cachedExists h ?c1 ?p2))"
    using c1 by (rule cachedExists_agrees(2))
  have e2: "fst (cachedExists h ?c1 ?p2) = existsSync h ?p2"
    using c1 by (rule cachedExists_agrees(1))
  note p3 = probeCommonDirs_agrees[OF c2, of "fsPath workspaceFolder" "basename h recFile" commonDirs]
  have both: "fst (resolvePath h workspaceFolder recFile cache) = resolveSpec h workspaceFolder recFile
      \<and> cacheAgrees h (snd (resolvePath h workspaceFolder recFile cache))"
  proof (cases "isAbsolute h recFile")
    case True
    then show ?thesis
      using cachedExists_agrees[OF assms, of recFile] e2 c2 p3
      by (auto simp: resolvePath_def resolveSpec_def case_prod_unfold Let_def commonDirs_def
          split: option.splits)
  next
    case False
    then show ?thesis
      using e2 c2 p3
      by (auto simp: resolvePath_def resolveSpec_def case_prod_unfold Let_def commonDirs_def
          split: option.splits)
  qed
  from both show "fst (resolvePath h workspaceFolder recFile cache) = resolveSpec h workspaceFolder recFile"
    by simp
  from both show "cacheAgrees h (snd (resolvePath h workspaceFolder recFile cache))"
    by simp
qed

lemma cachedExists_dom:
  "dom (snd (cachedExists h cache p)) = insert p (dom cache)"
  by (auto simp: cachedExists_def Let_def split: if_splits)

lemma probeCommonDirs_dom:
  assumes "cacheAgrees h cache"
  shows "dom (snd (probeCommonDirs h root fileName dirs cache))
           = dom cache \<union> set (probedUntilHit (existsSync h)
                                 (map (\<lambda>dir. join h [root, dir, fileName]) dirs))"
  using assms
proof (induction dirs arbitrary: cache)
  case Nil
  then show ?case by simp
next
  case (Cons dir dirs)
  let ?p = "join h [root, dir, fileName]"
  let ?c = "if cache ?p = None then cache(?p \<mapsto> existsSync h ?p) else cache"
  have c: "cacheAgrees h ?c" using Cons.prems by (auto simp: cacheAgrees_def)
  have v: "?c ?p = Some (existsSync h ?p)"
    using Cons.prems by (auto simp: cacheAgrees_def)
  have d: "dom ?c = insert ?p (dom cache)" by auto
  show ?case
  proof (cases "existsSync h ?p")
    case True
    then show ?thesis using v d by (simp add: Let_def)
  next
    case False
    then show ?thesis using v d Cons.IH[OF c] by (simp add: Let_def)
  qed
qed

lemma resolvePath_dom:
  assumes "cacheAgrees h cache"
  shows "dom (snd (resolvePath h workspaceFolder recFile cache))
           = dom cache \<union> set (probesSpec h workspaceFolder recFile)"
proof -
  let ?c1 = "if isAbsolute h recFile then snd (cachedExists h cache recFile) else cache"
  have c1: "cacheAgrees h ?c1" using assms cachedExists_agrees(2) by simp
  let ?p2 = "join h [fsPath workspaceFolder, recFile]"
  let ?c2 = "snd (cachedExists h ?c1 ?p2)"
  have c2: "cacheAgrees h ?c2"
    using c1 by (rule cachedExists_agrees(2))
  have e2: "fst (cachedExists h ?c1 ?p2) = existsSync h ?p2"
    using c1 by (rule cachedExists_agrees(1))
  have d2: "dom ?c2 = insert ?p2 (dom ?c1)" by (rule cachedExists_dom)
  note p3 = probeCommonDirs_dom[OF c2, of "fsPath workspaceFolder" "basename h recFile" commonDirs]
  show ?thesis
  proof (cases "isAbsolute h recFile")
    case True
    then show ?thesis
      using cachedExists_agrees(1)[OF assms, of recFile] cachedExists_dom[of h cache recFile] e2 d2 p3
      by (auto simp: resolvePath_def probesSpec_def case_prod_unfold Let_def commonDirs_def)
  next
    case False
    then show ?thesis
      using e2 d2 p3
      by (auto simp: resolvePath_def probesSpec_def case_prod_unfold Let_def commonDirs_def)
  qed
qed

lemmas posix_run =
  posixHost_def isAbsolutePosix_def basenamePosix_def fileUri_def wsRoot_def summaryRecord_def
  emptyParser_def freshService_def

lemmas convert_run =
  convertToFileCoverage_def resolvePath_def cachedExists_def commonDirs_def fileCoverageOf_def
  Let_def

text \<open>
  C4. With a cache that holds only what the file system says (as the empty cache a
  pass starts with does), the resolution in the loop body gives what the
  specification's ladder gives: the path itself when it is absolute and exists, else
  the path joined onto the workspace root when that exists, else the base name under
  the first of \<open>src\<close>, \<open>lib\<close>, \<open>app\<close>, \<open>components\<close> that has it, else nothing (the
  record is skipped). It stops at the first success: the paths it adds to the cache
  are the candidates up to the first that exists. The cache still holds only what the
  file system says.
\<close>

theorem resolve_priority:
  assumes "cacheAgrees h cache"
  shows "fst (resolvePath h workspaceFolder recFile cache) = resolveSpec h workspaceFolder recFile
         \<and> dom (snd (resolvePath h workspaceFolder recFile cache))
             = dom cache \<union> set (probesSpec h workspaceFolder recFile)
         \<and> cacheAgrees h (snd (resolvePath h workspaceFolder recFile cache))"
  using resolvePath_agrees[OF assms] resolvePath_dom[OF assms] by simp

theorem resolve_priority_witness:
  "cacheAgrees utilHost Map.empty
   \<and> fst (resolvePath utilHost wsRoot ''/ws/src/util.ts'' Map.empty) = Some ''/ws/src/util.ts''
   \<and> dom (snd (resolvePath utilHost wsRoot ''/ws/src/util.ts'' Map.empty)) = {''/ws/src/util.ts''}
   \<and> fst (resolvePath utilHost wsRoot ''src/util.ts'' Map.empty) = Some ''/ws/src/util.ts''
   \<and> dom (snd (resolvePath utilHost wsRoot ''src/util.ts'' Map.empty)) = {''/ws/src/util.ts''}
   \<and> fst (resolvePath utilHost wsRoot ''build/out/util.ts'' Map.empty) = Some ''/ws/src/util.ts''
   \<and> dom (snd (resolvePath utilHost wsRoot ''build/out/util.ts'' Map.empty))
       = {''/ws/build/out/util.ts'', ''/ws/src/util.ts''}
   \<and> fst (resolvePath utilHost wsRoot ''gen/missing.ts'' Map.empty) = None
   \<and> dom (snd (resolvePath utilHost wsRoot ''gen/missing.ts'' Map.empty))
       = {''/ws/gen/missing.ts'', ''/ws/src/missing.ts'', ''/ws/lib/missing.ts'',
          ''/ws/app/missing.ts'', ''/ws/components/missing.ts''}"
proof -
  have c: "cacheAgrees utilHost Map.empty" by (rule cacheAgrees_empty)
  have s1: "resolveSpec utilHost wsRoot ''/ws/src/util.ts'' = Some ''/ws/src/util.ts''"
    and s2: "resolveSpec utilHost wsRoot ''src/util.ts'' = Some ''/ws/src/util.ts''"
    and s3: "resolveSpec utilHost wsRoot ''build/out/util.ts'' = Some ''/ws/src/util.ts''"
    and s4: "resolveSpec utilHost wsRoot ''gen/missing.ts'' = None"
    by (simp_all add: resolveSpec_def utilHost_def posix_run)
  have p1: "probesSpec utilHost wsRoot ''/ws/src/util.ts'' = [''/ws/src/util.ts'']"
    and p2: "probesSpec utilHost wsRoot ''src/util.ts'' = [''/ws/src/util.ts'']"
    and p3: "probesSpec utilHost wsRoot ''build/out/util.ts''
               = [''/ws/build/out/util.ts'', ''/ws/src/util.ts'']"
    and p4: "probesSpec utilHost wsRoot ''gen/missing.ts''
               = [''/ws/gen/missing.ts'', ''/ws/src/missing.ts'', ''/ws/lib/missing.ts'',
                  ''/ws/app/missing.ts'', ''/ws/components/missing.ts'']"
    by (simp_all add: probesSpec_def utilHost_def posix_run)
  note inst = resolve_priority[OF c, of wsRoot]
  show ?thesis
    using c inst[of "''/ws/src/util.ts''"] inst[of "''src/util.ts''"]
      inst[of "''build/out/util.ts''"] inst[of "''gen/missing.ts''"]
    by (simp add: s1 s2 s3 s4 p1 p2 p3 p4)
qed

section \<open>The record store\<close>

lemma mapGet_mapSet: "mapGet (mapSet m k v) k' = (if k' = k then Some v else mapGet m k')"
  by (induction m) auto

text \<open>
  After the loop, an identity maps to the last of the records that resolve to it, or
  to what it mapped to before when none does.
\<close>

lemma convertLoop_lookup:
  assumes "cacheAgrees h (cs_cache s)"
  shows "mapGet (fileRecordMap (cs_parser (convertLoop h ws recs s))) u
           = (if filter (\<lambda>r. identityOf h ws r = Some u) recs = []
              then mapGet (fileRecordMap (cs_parser s)) u
              else Some (last (filter (\<lambda>r. identityOf h ws r = Some u) recs)))"
  using assms
proof (induction recs arbitrary: s)
  case Nil
  then show ?case by simp
next
  case (Cons rec recs)
  obtain r c where rc: "resolvePath h ws (rec_file rec) (cs_cache s) = (r, c)"
    by (cases "resolvePath h ws (rec_file rec) (cs_cache s)")
  from resolvePath_agrees[OF Cons.prems, of ws "rec_file rec"] rc
  have r: "r = resolveSpec h ws (rec_file rec)" and c: "cacheAgrees h c" by auto
  show ?case
  proof (cases r)
    case None
    then have "identityOf h ws rec = None" using r by (simp add: identityOf_def)
    then show ?thesis
      using None rc c Cons.IH[of "s\<lparr>cs_cache := c\<rparr>"] by simp
  next
    case (Some path)
    let ?uri = "uriFile h path"
    let ?s' = "\<lparr> cs_parser =
                   \<lparr> fileRecordMap = mapSet (fileRecordMap (cs_parser s)) (uriString ?uri) rec,
                     fileCoverageInstanceMap =
                       mapSet (fileCoverageInstanceMap (cs_parser s)) (uriString ?uri)
                         (fileCoverageOf (cs_next s) ?uri rec) \<rparr>,
                 cs_result = cs_result s @ [fileCoverageOf (cs_next s) ?uri rec],
                 cs_cache = c,
                 cs_next = cs_next s + 1 \<rparr>"
    have step: "convertLoop h ws (rec # recs) s = convertLoop h ws recs ?s'"
      using Some rc by (simp add: Let_def)
    have id: "identityOf h ws rec = Some (uriString ?uri)"
      using Some r by (simp add: identityOf_def)
    have c': "cacheAgrees h (cs_cache ?s')" using c by simp
    show ?thesis
      unfolding step Cons.IH[OF c']
      using id by (auto simp: mapGet_mapSet)
  qed
qed

lemma convert_lookup:
  "mapGet (fileRecordMap (fst (snd (convertToFileCoverage h recs ws oid p)))) u
     = (if filter (\<lambda>r. identityOf h ws r = Some u) recs = [] then None
        else Some (last (filter (\<lambda>r. identityOf h ws r = Some u) recs)))"
  by (simp add: convertToFileCoverage_def Let_def convertLoop_lookup cacheAgrees_empty)

text \<open>
  The coverages a pass returns are those of the records that resolve, in the order of
  the report: a record that does not resolve is dropped.
\<close>

lemma convertLoop_result:
  assumes "cacheAgrees h (cs_cache s)"
  shows "map fc_uri (cs_result (convertLoop h ws recs s))
           = map fc_uri (cs_result s)
             @ map (uriFile h) (List.map_filter (\<lambda>r. resolveSpec h ws (rec_file r)) recs)"
  using assms
proof (induction recs arbitrary: s)
  case Nil
  then show ?case by (simp add: List.map_filter_simps)
next
  case (Cons rec recs)
  obtain r c where rc: "resolvePath h ws (rec_file rec) (cs_cache s) = (r, c)"
    by (cases "resolvePath h ws (rec_file rec) (cs_cache s)")
  from resolvePath_agrees[OF Cons.prems, of ws "rec_file rec"] rc
  have r: "resolveSpec h ws (rec_file rec) = r" and c: "cacheAgrees h c" by auto
  show ?case
  proof (cases r)
    case None
    then show ?thesis
      using rc r c Cons.IH[of "s\<lparr>cs_cache := c\<rparr>"] by (simp add: List.map_filter_simps)
  next
    case (Some path)
    then show ?thesis
      using rc r c by (simp add: List.map_filter_simps Let_def Cons.IH fileCoverageOf_def)
  qed
qed

lemma convert_result:
  "map fc_uri (fst (convertToFileCoverage h recs ws oid p))
     = map (uriFile h) (List.map_filter (\<lambda>r. resolveSpec h ws (rec_file r)) recs)"
  by (simp add: convertToFileCoverage_def Let_def convertLoop_result cacheAgrees_empty)

lemma getFileRecord_keeps:
  assumes "mapGet (fileRecordMap p) k = Some r"
  shows "mapGet (fileRecordMap (snd (getFileRecord h uri p))) k = Some r"
  using assms by (auto simp: getFileRecord_def mapGet_mapSet split: option.splits)

lemma lookups_keeps:
  assumes "mapGet (fileRecordMap p) k = Some r"
  shows "mapGet (fileRecordMap (lookups h uris p)) k = Some r"
  using assms by (induction uris arbitrary: p) (auto intro: getFileRecord_keeps)

lemma getFileRecord_exact:
  assumes "mapGet (fileRecordMap p) (uriString uri) = Some r"
  shows "getFileRecord h uri p = (Some r, p)"
  using assms by (simp add: getFileRecord_def)

lemma last_filter_nth:
  assumes "j < length xs" "P (xs ! j)" "\<forall>k. j < k \<and> k < length xs \<longrightarrow> \<not> P (xs ! k)"
  shows "filter P xs \<noteq> [] \<and> last (filter P xs) = xs ! j"
proof -
  have xs: "xs = take j xs @ (xs ! j) # drop (Suc j) xs"
    using assms(1) by (simp add: id_take_nth_drop)
  have "filter P (drop (Suc j) xs) = []"
    using assms(3) by (auto simp: filter_empty_conv in_set_conv_nth)
  then have "filter P xs = filter P (take j xs) @ [xs ! j]"
    using assms(2) by (subst xs) simp
  then show ?thesis by simp
qed

text \<open>
  C9. When the records at positions \<open>i < j\<close> of a report resolve to the same
  identity, and no record after \<open>j\<close> does, then after the pass every lookup by that
  identity returns the record at \<open>j\<close>, whatever lookups were made in between.
\<close>

theorem last_write_wins:
  assumes "i < j" "j < length records"
    and "identityOf h ws (records ! i) = Some u"
    and "identityOf h ws (records ! j) = Some u"
    and "\<forall>k. j < k \<and> k < length records \<longrightarrow> identityOf h ws (records ! k) \<noteq> Some u"
    and "uriString uri = u"
  shows "fst (getFileRecord h uri
                (lookups h uris (fst (snd (convertToFileCoverage h records ws oid p)))))
           = Some (records ! j)"
proof -
  let ?P = "\<lambda>r. identityOf h ws r = Some u"
  let ?store = "fst (snd (convertToFileCoverage h records ws oid p))"
  from last_filter_nth[of j records ?P] assms(2,4,5)
  have ne: "filter ?P records \<noteq> []" and l: "last (filter ?P records) = records ! j" by auto
  have "mapGet (fileRecordMap ?store) u = Some (records ! j)"
    using ne l by (simp add: convert_lookup)
  then have "mapGet (fileRecordMap (lookups h uris ?store)) (uriString uri) = Some (records ! j)"
    unfolding assms(6) by (rule lookups_keeps)
  then show ?thesis by (simp add: getFileRecord_exact)
qed

theorem last_write_wins_witness:
  "(0::nat) < 1 \<and> 1 < length duplicateRecords
   \<and> identityOf utilHost wsRoot (duplicateRecords ! 0) = Some ''file:///ws/src/util.ts''
   \<and> identityOf utilHost wsRoot (duplicateRecords ! 1) = Some ''file:///ws/src/util.ts''
   \<and> uriString (fileUri ''/ws/src/util.ts'') = ''file:///ws/src/util.ts''
   \<and> fst (getFileRecord utilHost (fileUri ''/ws/src/util.ts'')
            (lookups utilHost [fileUri ''/elsewhere/util.ts'']
               (fst (snd (convertToFileCoverage utilHost duplicateRecords wsRoot 0 emptyParser)))))
       = Some (summaryRecord ''/ws/src/util.ts'' 20 1)"
proof -
  have a: "(0::nat) < 1" "1 < length duplicateRecords"
    by (simp_all add: duplicateRecords_def)
  have b: "identityOf utilHost wsRoot (duplicateRecords ! 0) = Some ''file:///ws/src/util.ts''"
    "identityOf utilHost wsRoot (duplicateRecords ! 1) = Some ''file:///ws/src/util.ts''"
    by (simp_all add: identityOf_def resolveSpec_def duplicateRecords_def utilHost_def posix_run)
  have c: "\<forall>k. 1 < k \<and> k < length duplicateRecords
             \<longrightarrow> identityOf utilHost wsRoot (duplicateRecords ! k) \<noteq> Some ''file:///ws/src/util.ts''"
  proof -
    have "length duplicateRecords = 2" by (simp add: duplicateRecords_def)
    then show ?thesis by auto
  qed
  have d: "uriString (fileUri ''/ws/src/util.ts'') = ''file:///ws/src/util.ts''"
    by (simp add: fileUri_def)
  have e: "duplicateRecords ! 1 = summaryRecord ''/ws/src/util.ts'' 20 1"
    by (simp add: duplicateRecords_def)
  from last_write_wins[OF a b c d, of "[fileUri ''/elsewhere/util.ts'']" 0 emptyParser]
  show ?thesis using a b d e by simp
qed

section \<open>The aggregate totals\<close>

lemma sumLines_eq:
  "sumLines recs totalL coveredL = (totalL + sumFound recs, coveredL + sumHit recs)"
  by (induction recs arbitrary: totalL coveredL) (auto simp: sumFound_def sumHit_def)

lemma calculateCoverageStats_eq:
  "calculateCoverageStats recs = \<lparr> totalLines = sumFound recs, coveredLines = sumHit recs \<rparr>"
  by (simp add: calculateCoverageStats_def sumLines_eq)

lemma addCoverages_statusBar: "statusBar (addCoverages h cs s) = statusBar s"
  by (induction cs arbitrary: s) (auto split: prod.splits option.splits)

lemma processCoverageFiles_statusBar:
  "statusBar (processCoverageFiles h recs ws s) = statusBar s"
  by (simp add: processCoverageFiles_def addCoverages_statusBar split: prod.splits)

lemma loadCoverage_statusBar:
  assumes "parseTry h lcovFilePath = Inr records" "records \<noteq> []"
  shows "statusBar (snd (loadCoverage h (Some folder) lcovFilePath s))
           = Some \<lparr> totalLines = sumFound records, coveredLines = sumHit records \<rparr>"
  using assms
  by (simp add: loadCoverage_def parse_def processCoverageFiles_statusBar
      calculateCoverageStats_eq)

lemma reportHost_parse: "parseTry reportHost ''/ws/coverage/lcov.info'' = Inr reportRecords"
  by (simp add: parseTry_def reportHost_def posixHost_def)

text \<open>
  C1, as the code has it. When the report parses to a non-empty list of records, the
  totals the service shows are the sums of \<open>lines.found\<close> and \<open>lines.hit\<close> over all
  parsed records, whether or not their paths resolve.
\<close>

theorem aggregator_totals:
  assumes "parseTry h lcovFilePath = Inr records" "records \<noteq> []"
  shows "statusBar (snd (loadCoverage h (Some folder) lcovFilePath s))
           = Some \<lparr> totalLines = sumFound records, coveredLines = sumHit records \<rparr>"
  using assms by (rule loadCoverage_statusBar)

theorem aggregator_totals_witness:
  "parseTry reportHost ''/ws/coverage/lcov.info'' = Inr reportRecords
   \<and> reportRecords \<noteq> []
   \<and> statusBar (snd (loadCoverage reportHost (Some wsRoot) ''/ws/coverage/lcov.info'' freshService))
       = Some \<lparr> totalLines = 15, coveredLines = 12 \<rparr>"
proof -
  have ne: "reportRecords \<noteq> []" by (simp add: reportRecords_def)
  have sums: "sumFound reportRecords = 15" "sumHit reportRecords = 12"
    by (simp_all add: sumFound_def sumHit_def reportRecords_def summaryRecord_def)
  from aggregator_totals[OF reportHost_parse ne, of wsRoot freshService]
  show ?thesis using reportHost_parse ne sums by simp
qed

text \<open>
  C1, as the specification states it, fails: in the workspace \<^verbatim>\<open>/ws\<close> the record for
  \<^verbatim>\<open>gen/missing.ts\<close> does not resolve and is not stored, and yet the totals shown are
  15 and 12, not the 10 and 7 of the resolved record.
\<close>

theorem unresolved_record_counted:
  "resolveSpec reportHost wsRoot ''gen/missing.ts'' = None
   \<and> resolvedRecords reportHost wsRoot reportRecords = [summaryRecord ''src/util.ts'' 10 7]
   \<and> map snd (fileRecordMap (parser (snd
        (loadCoverage reportHost (Some wsRoot) ''/ws/coverage/lcov.info'' freshService))))
       = [summaryRecord ''src/util.ts'' 10 7]
   \<and> sumFound (resolvedRecords reportHost wsRoot reportRecords) = 10
   \<and> sumHit (resolvedRecords reportHost wsRoot reportRecords) = 7
   \<and> statusBar (snd (loadCoverage reportHost (Some wsRoot) ''/ws/coverage/lcov.info'' freshService))
       = Some \<lparr> totalLines = 15, coveredLines = 12 \<rparr>"
proof -
  have r: "resolveSpec reportHost wsRoot ''gen/missing.ts'' = None"
    "resolveSpec reportHost wsRoot ''src/util.ts'' = Some ''/ws/src/util.ts''"
    by (simp_all add: resolveSpec_def reportHost_def posix_run)
  have rr: "resolvedRecords reportHost wsRoot reportRecords = [summaryRecord ''src/util.ts'' 10 7]"
    using r by (simp add: resolvedRecords_def reportRecords_def summaryRecord_def)
  have st: "map snd (fileRecordMap (parser (snd
        (loadCoverage reportHost (Some wsRoot) ''/ws/coverage/lcov.info'' freshService))))
       = [summaryRecord ''src/util.ts'' 10 7]"
    by (simp add: loadCoverage_def parse_def parseTry_def processCoverageFiles_def
        getFileRecord_def convert_run reportRecords_def reportHost_def posix_run)
  have sums: "sumFound reportRecords = 15" "sumHit reportRecords = 12"
    by (simp_all add: sumFound_def sumHit_def reportRecords_def summaryRecord_def)
  have ne: "reportRecords \<noteq> []" by (simp add: reportRecords_def)
  have sb: "statusBar (snd (loadCoverage reportHost (Some wsRoot) ''/ws/coverage/lcov.info'' freshService))
       = Some \<lparr> totalLines = 15, coveredLines = 12 \<rparr>"
    using loadCoverage_statusBar[OF reportHost_parse ne, of wsRoot freshService] sums by simp
  show ?thesis
    using r(1) st sb unfolding rr by (simp add: sumFound_def sumHit_def summaryRecord_def)
qed

text \<open>
  C3, as the code has it. A record with \<open>lines.found = 0\<close> adds nothing to
  \<open>totalLines\<close> and adds its \<open>lines.hit\<close> to \<open>coveredLines\<close>, wherever it stands in
  the report.
\<close>

theorem zero_found_contribution:
  assumes "found (rec_lines rec) = 0"
  shows "totalLines (calculateCoverageStats (before @ rec # after))
           = totalLines (calculateCoverageStats (before @ after))
       \<and> coveredLines (calculateCoverageStats (before @ rec # after))
           = coveredLines (calculateCoverageStats (before @ after)) + hit (rec_lines rec)"
  using assms by (simp add: calculateCoverageStats_eq sumFound_def sumHit_def)

theorem zero_found_contribution_witness:
  "found (rec_lines emptyRecord) = 0
   \<and> totalLines (calculateCoverageStats ([utilRecord] @ emptyRecord # [libRecord]))
       = totalLines (calculateCoverageStats ([utilRecord] @ [libRecord]))
   \<and> coveredLines (calculateCoverageStats ([utilRecord] @ emptyRecord # [libRecord]))
       = coveredLines (calculateCoverageStats ([utilRecord] @ [libRecord])) + 3"
proof -
  have z: "found (rec_lines emptyRecord) = 0" and h: "hit (rec_lines emptyRecord) = 3"
    by (simp_all add: emptyRecord_def summaryRecord_def)
  from zero_found_contribution[OF z, of "[utilRecord]" "[libRecord]"] z h
  show ?thesis by simp
qed

text \<open>
  C3, as the specification states it, fails: the record with \<open>found = 0\<close> and
  \<open>hit = 3\<close> raises \<open>coveredLines\<close> from 0 to 3.
\<close>

theorem zero_found_still_counts_hits:
  "found (rec_lines emptyRecord) = 0
   \<and> coveredLines (calculateCoverageStats []) = 0
   \<and> totalLines (calculateCoverageStats [emptyRecord]) = 0
   \<and> coveredLines (calculateCoverageStats [emptyRecord]) = 3"
  by (simp add: calculateCoverageStats_def emptyRecord_def summaryRecord_def)

section \<open>Parsing and detail requests\<close>

text \<open>
  C8. \<^verbatim>\<open>parse\<close> always returns (no exception leaves it); when the LCOV file is missing,
  or the parser rejects it, one error message is shown and the result is the empty
  list of records.
\<close>

theorem parse_failure:
  "(\<exists>records. snd (parse h lcovFilePath) = Inr records)
   \<and> (\<not> existsSync h lcovFilePath \<longrightarrow>
        parse h lcovFilePath
          = ([ErrorMessage (''Error parsing LCOV file: LCOV file not found: '' @ lcovFilePath)],
             Inr []))
   \<and> (\<forall>err. existsSync h lcovFilePath \<and> parseLcov h lcovFilePath = Inl err \<longrightarrow>
        parse h lcovFilePath
          = ([ErrorMessage (''Error parsing LCOV file: '' @ thrownText err)], Inr []))"
  by (auto simp: parse_def parseTry_def split: sum.splits)

theorem parse_failure_witness:
  "\<not> existsSync utilHost ''/ws/coverage/lcov.info''
   \<and> parse utilHost ''/ws/coverage/lcov.info''
       = ([ErrorMessage ''Error parsing LCOV file: LCOV file not found: /ws/coverage/lcov.info''],
          Inr [])
   \<and> existsSync brokenHost ''/ws/coverage/lcov.info''
   \<and> parseLcov brokenHost ''/ws/coverage/lcov.info'' = Inl (OtherValue ''Failed to parse string'')
   \<and> parse brokenHost ''/ws/coverage/lcov.info''
       = ([ErrorMessage ''Error parsing LCOV file: Failed to parse string''], Inr [])"
proof -
  have a: "\<not> existsSync utilHost ''/ws/coverage/lcov.info''"
    by (simp add: utilHost_def posixHost_def)
  have b: "existsSync brokenHost ''/ws/coverage/lcov.info''
      \<and> parseLcov brokenHost ''/ws/coverage/lcov.info'' = Inl (OtherValue ''Failed to parse string'')"
    by (simp add: brokenHost_def posixHost_def)
  from parse_failure[of utilHost "''/ws/coverage/lcov.info''"] a
  have 1: "parse utilHost ''/ws/coverage/lcov.info''
       = ([ErrorMessage (''Error parsing LCOV file: LCOV file not found: '' @ ''/ws/coverage/lcov.info'')],
          Inr [])"
    by blast
  from parse_failure[of brokenHost "''/ws/coverage/lcov.info''"] b
  have 2: "parse brokenHost ''/ws/coverage/lcov.info''
       = ([ErrorMessage (''Error parsing LCOV file: '' @ thrownText (OtherValue ''Failed to parse string''))],
          Inr [])"
    by blast
  show ?thesis using a b 1 2 by simp
qed









section \<open>The fallback search of \<^verbatim>\<open>getFileRecord\<close>\<close>

text \<open>
  What the loop returns: the first entry, in insertion order, that passes any of the
  four tests.
\<close>

lemma scanEntries_first_match:
  "map_option snd (scanEntries h filePath entries)
     = firstRecordWhere
         (\<lambda>r. rec_file r = filePath \<or> endsWith filePath (rec_file r)
              \<or> endsWith (normalizeSeparators filePath) (normalizeSeparators (rec_file r))
              \<or> basename h filePath = basename h (rec_file r))
         entries"
  by (induction entries) (auto simp: firstRecordWhere_def)

lemma twoDirStore_records:
  "fileRecordMap twoDirStore
     = [(''file:///ws/lib/util.ts'', libRecord), (''file:///ws/src/util.ts'', srcRecord)]"
  by (simp add: twoDirStore_def libRecord_def srcRecord_def twoDirHost_def convert_run posix_run)

text \<open>
  C2 on the code. The store holds the records for \<^verbatim>\<open>lib/util.ts\<close> and \<^verbatim>\<open>src/util.ts\<close>, in
  this order. A lookup for \<^verbatim>\<open>/ws/packages/app/src/util.ts\<close> misses the exact key. The
  second record is a suffix match and the first is a match by file name only; the
  loop returns the first record, where a priority order over the whole store returns
  the second.
\<close>

theorem filename_match_preempts_suffix_match:
  "fileRecordMap twoDirStore
     = [(''file:///ws/lib/util.ts'', libRecord), (''file:///ws/src/util.ts'', srcRecord)]
   \<and> mapGet (fileRecordMap twoDirStore) (uriString probeUri) = None
   \<and> endsWith (fsPath probeUri) (rec_file srcRecord)
   \<and> \<not> endsWith (fsPath probeUri) (rec_file libRecord)
   \<and> \<not> endsWith (normalizeSeparators (fsPath probeUri)) (normalizeSeparators (rec_file libRecord))
   \<and> basename twoDirHost (fsPath probeUri) = basename twoDirHost (rec_file libRecord)
   \<and> scanEntries twoDirHost (fsPath probeUri) (fileRecordMap twoDirStore)
       = Some (FileNameOnly, libRecord)
   \<and> fst (getFileRecord twoDirHost probeUri twoDirStore) = Some libRecord
   \<and> fallbackByPriority twoDirHost (fsPath probeUri) (fileRecordMap twoDirStore) = Some srcRecord
   \<and> libRecord \<noteq> srcRecord"
proof -
  have paths: "fsPath probeUri = ''/ws/packages/app/src/util.ts''"
    "uriString probeUri = ''file:///ws/packages/app/src/util.ts''"
    "rec_file libRecord = ''lib/util.ts''" "rec_file srcRecord = ''src/util.ts''"
    by (simp_all add: probeUri_def fileUri_def libRecord_def srcRecord_def summaryRecord_def)
  have tests: "endsWith ''/ws/packages/app/src/util.ts'' ''src/util.ts''"
    "\<not> endsWith ''/ws/packages/app/src/util.ts'' ''lib/util.ts''"
    "\<not> endsWith (normalizeSeparators ''/ws/packages/app/src/util.ts'')
          (normalizeSeparators ''lib/util.ts'')"
    "basename twoDirHost ''/ws/packages/app/src/util.ts'' = basename twoDirHost ''lib/util.ts''"
    by (simp_all add: endsWith_def normalizeSeparators_def twoDirHost_def posixHost_def
        basenamePosix_def)
  have ne: "libRecord \<noteq> srcRecord"
    by (simp add: libRecord_def srcRecord_def summaryRecord_def)
  have miss: "mapGet (fileRecordMap twoDirStore) (uriString probeUri) = None"
    by (simp add: twoDirStore_records paths)
  have scan: "scanEntries twoDirHost (fsPath probeUri) (fileRecordMap twoDirStore)
       = Some (FileNameOnly, libRecord)"
    using tests by (simp add: twoDirStore_records paths)
  have got: "fst (getFileRecord twoDirHost probeUri twoDirStore) = Some libRecord"
    by (simp add: getFileRecord_def miss scan)
  have prio: "fallbackByPriority twoDirHost (fsPath probeUri) (fileRecordMap twoDirStore)
       = Some srcRecord"
    using tests by (simp add: fallbackByPriority_def firstRecordWhere_def twoDirStore_records paths)
  show ?thesis
    using twoDirStore_records miss tests scan got prio ne by (simp add: paths)
qed

end
